theory Spec2Isabelle
  imports Main
begin

section \<open>Strings, formatting and the standard-library functions the code calls\<close>

text \<open>
  Go strings and byte slices are byte sequences: \<^typ>\<open>string\<close>. An \<open>error\<close> value is
  represented by its message. A call either returns (a value, or an error as the Go
  function's second result) or panics.
\<close>

datatype fault = Error string | Panic

text \<open>\<open>strings.HasPrefix(s, prefix)\<close>.\<close>

fun HasPrefix :: "string \<Rightarrow> string \<Rightarrow> bool" where
  "HasPrefix s [] = True"
| "HasPrefix [] (p # ps) = False"
| "HasPrefix (c # cs) (p # ps) = (c = p \<and> HasPrefix cs ps)"

text \<open>\<open>strings.Join(a, sep)\<close>.\<close>

fun Join :: "string list \<Rightarrow> string \<Rightarrow> string" where
  "Join [] sep = []"
| "Join [a] sep = a"
| "Join (a # b # bs) sep = a @ sep @ Join (b # bs) sep"

section \<open>The discriminator extractor: \<open>typeMatch\<close>\<close>

text \<open>
  \<open>var typeMatch = re.MustCompile("\"type\":\\s*\"(\\w+)\"")\<close>: the literal \<open>"type":\<close>,
  any run of white space, a double quote, a non-empty run of word characters (the capture
  group) and a closing double quote. In Go's regexp syntax \<open>\s\<close> is \<open>[\t\n\f\r ]\<close> and
  \<open>\w\<close> is \<open>[0-9A-Za-z_]\<close>; both are ASCII classes, so matching on bytes and matching on the
  UTF-8 decoding agree.
\<close>

definition dquote :: char where
  "dquote = CHR 0x22"

definition typeLit :: string where
  "typeLit = dquote # ''type'' @ [dquote, CHR '':'']"

definition isSpace :: "char \<Rightarrow> bool" where
  "isSpace c \<longleftrightarrow> c = CHR 0x09 \<or> c = CHR 0x0A \<or> c = CHR 0x0C \<or> c = CHR 0x0D \<or> c = CHR '' ''"

definition isWord :: "char \<Rightarrow> bool" where
  "isWord c \<longleftrightarrow>
     (let n = (of_char c :: nat)
      in (48 \<le> n \<and> n \<le> 57) \<or> (65 \<le> n \<and> n \<le> 90) \<or> n = 95 \<or> (97 \<le> n \<and> n \<le> 122))"

fun stripPrefix :: "string \<Rightarrow> string \<Rightarrow> string option" where
  "stripPrefix [] s = Some s"
| "stripPrefix (p # ps) [] = None"
| "stripPrefix (p # ps) (c # cs) = (if p = c then stripPrefix ps cs else None)"

text \<open>
  A match of the pattern that starts at the first byte of \<open>s\<close>: the matched text and the
  capture group. Both repetitions are greedy and are followed by a double quote, which is
  in neither class, so there is at most one way to match at a given start.
\<close>

definition matchHere :: "string \<Rightarrow> (string \<times> string) option" where
  "matchHere s =
     (case stripPrefix typeLit s of
        None \<Rightarrow> None
      | Some r \<Rightarrow>
          (let ws = takeWhile isSpace r in
           case dropWhile isSpace r of
             [] \<Rightarrow> None
           | q # r2 \<Rightarrow>
               if q \<noteq> dquote then None
               else
                 (let w = takeWhile isWord r2 in
                  case dropWhile isWord r2 of
                    [] \<Rightarrow> None
                  | q2 # r3 \<Rightarrow>
                      if q2 = dquote \<and> w \<noteq> []
                      then Some (typeLit @ ws @ dquote # w @ [dquote], w)
                      else None)))"

text \<open>The leftmost match: the regexp engine tries the start positions from left to right.\<close>

fun findFirst :: "string \<Rightarrow> (string \<times> string) option" where
  "findFirst [] = matchHere []"
| "findFirst (c # cs) =
     (case matchHere (c # cs) of
        Some m \<Rightarrow> Some m
      | None \<Rightarrow> findFirst cs)"

text \<open>
  \<open>typeMatch.FindStringSubmatch(s)\<close>: \<open>nil\<close> when nothing matches, else the matched text
  followed by the text of the capture group.
\<close>

definition FindStringSubmatch :: "string \<Rightarrow> string list" where
  "FindStringSubmatch s = (case findFirst s of None \<Rightarrow> [] | Some (m, g) \<Rightarrow> [m, g])"

text \<open>
  The language of the pattern, stated without reference to the matcher: \<open>patternMatch m g\<close>
  says that the text \<open>m\<close> is matched by the pattern with capture group \<open>g\<close>, and
  \<open>containsPattern s\<close> that some part of \<open>s\<close> is. The matcher above is proved to agree
  with them.
\<close>

definition patternMatch :: "string \<Rightarrow> string \<Rightarrow> bool" where
  "patternMatch m g \<longleftrightarrow>
     (\<exists>ws. m = typeLit @ ws @ dquote # g @ [dquote]
        \<and> list_all isSpace ws \<and> g \<noteq> [] \<and> list_all isWord g)"


section \<open>The batch decoder: \<open>ParseEvents\<close>\<close>

text \<open>
  The package \<open>events\<close> (the type registry \<open>events.EventForName\<close>, the validity test
  \<open>events.ValidEventType\<close> and the event types) and \<open>encoding/json\<close> are not part of the
  modelled file. They are parameters: \<open>EventForName k\<close> is the fresh instance for kind \<open>k\<close>
  (\<open>None\<close> for Go's \<open>nil\<close>), and \<open>Unmarshal bytes e\<close> is \<open>json.Unmarshal(bytes, e)\<close>, giving
  the error message or the populated instance.
\<close>

type_synonym 'ev registry = "string \<Rightarrow> 'ev option"
type_synonym 'ev decoder = "string \<Rightarrow> 'ev \<Rightarrow> string + 'ev"

text \<open>
  \<open>fmt.Errorf("ParseEvents didn't find an event type in:\n", string(*j))\<close>: the format has
  no verb, so \<open>fmt\<close> appends the unused argument as \<open>%!(EXTRA string=...)\<close>.
\<close>

definition noTypeError :: "string \<Rightarrow> string" where
  "noTypeError s =
     ''ParseEvents didn'' @ [CHR 0x27] @ ''t find an event type in:'' @ [CHR 0x0A]
       @ ''%!(EXTRA string='' @ s @ '')''"

text \<open>\<open>fmt.Errorf("error parsing [%s]: %s", tstr[1], err)\<close>.\<close>

definition parseError :: "string \<Rightarrow> string \<Rightarrow> string" where
  "parseError kind err = ''error parsing ['' @ kind @ '']: '' @ err"

text \<open>
  The loop \<open>for _, j := range jlist\<close> with its state: the array \<open>elist\<close> and the index \<open>i\<close>
  of the next free slot. A record is a \<open>*json.RawMessage\<close>; dereferencing a \<open>nil\<close> one
  panics, as does a write outside \<open>elist\<close>. The line written to standard error for an
  unhandled kind is not part of the result and is left out.
\<close>

fun ParseEvents_loop ::
  "'ev registry \<Rightarrow> 'ev decoder \<Rightarrow> string option list \<Rightarrow> 'ev option list \<Rightarrow> nat
     \<Rightarrow> fault + ('ev option list \<times> nat)" where
  "ParseEvents_loop EventForName Unmarshal [] elist i = Inr (elist, i)"
| "ParseEvents_loop EventForName Unmarshal (j # js) elist i =
     (case j of
        None \<Rightarrow> Inl Panic
      | Some s \<Rightarrow>
          (let tstr = FindStringSubmatch s in
           if length tstr < 2 then Inl (Error (noTypeError s))
           else
             (case EventForName (tstr ! 1) of
                None \<Rightarrow> ParseEvents_loop EventForName Unmarshal js elist i
              | Some e \<Rightarrow>
                  (case Unmarshal s e of
                     Inl err \<Rightarrow> Inl (Error (parseError (tstr ! 1) err))
                   | Inr e' \<Rightarrow>
                       if i < length elist
                       then ParseEvents_loop EventForName Unmarshal js (elist[i := Some e']) (i + 1)
                       else Inl Panic))))"

definition ParseEvents ::
  "'ev registry \<Rightarrow> 'ev decoder \<Rightarrow> string option list \<Rightarrow> fault + 'ev option list" where
  "ParseEvents EventForName Unmarshal jlist =
     (let eventCount = length jlist;
          elist = replicate eventCount None
      in case ParseEvents_loop EventForName Unmarshal jlist elist 0 of
           Inl f \<Rightarrow> Inl f
         | Inr (elist', i) \<Rightarrow> Inr (take i elist'))"


section \<open>A per-record view of the loop body\<close>

text \<open>
  The loop body of \<open>ParseEvents\<close> ends in one of three ways for a record with bytes \<open>s\<close>:
  \<open>continue\<close> (kind not registered), an assignment to \<open>elist[i]\<close>, or \<open>return nil, err\<close>.
  \<open>kindOf s\<close> is the kind-tag, \<open>tstr[1]\<close>, when the pattern matches.
\<close>

datatype 'ev outcome = Skipped | Decoded 'ev | Faulted string

definition kindOf :: "string \<Rightarrow> string option" where
  "kindOf s = map_option snd (findFirst s)"

definition processRecord :: "'ev registry \<Rightarrow> 'ev decoder \<Rightarrow> string \<Rightarrow> 'ev outcome" where
  "processRecord EventForName Unmarshal s =
     (case kindOf s of
        None \<Rightarrow> Faulted (noTypeError s)
      | Some k \<Rightarrow>
          (case EventForName k of
             None \<Rightarrow> Skipped
           | Some e \<Rightarrow>
               (case Unmarshal s e of
                  Inl err \<Rightarrow> Faulted (parseError k err)
                | Inr e' \<Rightarrow> Decoded e')))"

fun firstFault :: "'ev outcome list \<Rightarrow> string option" where
  "firstFault [] = None"
| "firstFault (Faulted m # os) = Some m"
| "firstFault (Skipped # os) = firstFault os"
| "firstFault (Decoded e # os) = firstFault os"

fun decodedOf :: "'ev outcome list \<Rightarrow> 'ev list" where
  "decodedOf [] = []"
| "decodedOf (Decoded e # os) = e # decodedOf os"
| "decodedOf (Skipped # os) = decodedOf os"
| "decodedOf (Faulted m # os) = decodedOf os"

text \<open>A record of a registered kind, and the event it decodes to.\<close>

definition registered :: "'ev registry \<Rightarrow> string \<Rightarrow> bool" where
  "registered EventForName s =
     (case kindOf s of None \<Rightarrow> False | Some k \<Rightarrow> EventForName k \<noteq> None)"

definition decodedEvent :: "'ev registry \<Rightarrow> 'ev decoder \<Rightarrow> string \<Rightarrow> 'ev option" where
  "decodedEvent EventForName Unmarshal s =
     (case processRecord EventForName Unmarshal s of Decoded e \<Rightarrow> Some e | _ \<Rightarrow> None)"

section \<open>The API handle: \<open>AssertJson\<close> and \<open>ReadBody\<close>\<close>

text \<open>
  An \<open>http.Response\<close>: the status code, the header (keys in canonical form, as
  \<open>Header.Get\<close> looks them up) and what \<open>ioutil.ReadAll(res.Body)\<close> delivers, the bytes
  read and the read error, if any.
\<close>

record http_response =
  StatusCode :: int
  Header :: "string \<rightharpoonup> string list"
  BodyStream :: "string \<times> string option"

record api_error =
  Message :: string
  Code :: string
  Description :: string
  Part :: string
  Line :: int

record response =
  HTTP :: "http_response option"
  Body :: "string option"
  Results :: "string \<rightharpoonup> string"
  Errors :: "api_error list"

record config =
  BaseUrl :: string
  ApiKey :: string
  ApiVersion :: int

text \<open>
  The handle \<open>api.API\<close>. \<open>Config\<close> is the configuration \<open>Init\<close> stored; \<open>Client\<close> is the
  transport, a parameter below; \<open>Response\<close> is a pointer, \<open>nil\<close> until a body is read.
\<close>

record api =
  Path :: string
  Config :: config
  Response :: "response option"

definition new_Response :: response where
  "new_Response = \<lparr>HTTP = None, Body = None, Results = Map.empty, Errors = []\<rparr>"

text \<open>\<open>http.Header.Get\<close>: the first value stored under the key, or the empty string.\<close>

definition Header_Get :: "(string \<rightharpoonup> string list) \<Rightarrow> string \<Rightarrow> string" where
  "Header_Get h k = (case h k of None \<Rightarrow> [] | Some [] \<Rightarrow> [] | Some (v # vs) \<Rightarrow> v)"

text \<open>The verb \<open>%d\<close> of \<open>fmt\<close> on an \<open>int\<close>.\<close>

function digits :: "nat \<Rightarrow> string" where
  "digits n = (if n < 10 then [char_of (48 + n)] else digits (n div 10) @ [char_of (48 + n mod 10)])"
  by pat_completeness auto
termination
  by (relation "measure id") auto

declare digits.simps [simp del]

definition itoa :: "int \<Rightarrow> string" where
  "itoa i = (if i < 0 then CHR ''-'' # digits (nat (- i)) else digits (nat i))"

text \<open>
  \<open>strings.EqualFold(s, t)\<close> for an ASCII string \<open>t\<close>, which is what the one call passes
  (\<open>jctype\<close>): equality of the UTF-8 decodings under simple case folding. An ASCII letter
  folds with its other case; beyond ASCII only U+017F (long s, bytes C5 BF) folds with
  \<open>s\<close> and U+212A (Kelvin sign, bytes E2 84 AA) with \<open>k\<close>.
\<close>

definition asciiLower :: "char \<Rightarrow> char" where
  "asciiLower c =
     (let n = (of_char c :: nat) in if 65 \<le> n \<and> n \<le> 90 then char_of (n + 32) else c)"

fun EqualFold :: "string \<Rightarrow> string \<Rightarrow> bool" where
  "EqualFold [] [] = True"
| "EqualFold [] (t # ts) = False"
| "EqualFold (c # cs) [] = False"
| "EqualFold (c # cs) (t # ts) =
     (if (of_char c :: nat) < 128 then asciiLower c = asciiLower t \<and> EqualFold cs ts
      else if c = CHR 0xC5 \<and> take 1 cs = [CHR 0xBF] \<and> asciiLower t = CHR ''s''
        then EqualFold (drop 1 cs) ts
      else if c = CHR 0xE2 \<and> take 2 cs = [CHR 0x84, CHR 0xAA] \<and> asciiLower t = CHR ''k''
        then EqualFold (drop 2 cs) ts
      else False)"

definition jctype :: string where
  "jctype = ''application/json''"

text \<open>
  \<open>AssertJson(res)\<close>; the result is the error, \<open>None\<close> for \<open>nil\<close>. The argument is a pointer
  and may be \<open>nil\<close>.
\<close>

definition AssertJson :: "http_response option \<Rightarrow> string option" where
  "AssertJson res =
     (case res of
        None \<Rightarrow> Some ''AssertJson got nil http.Response''
      | Some r \<Rightarrow>
          (let ctype = Header_Get (Header r) ''Content-Type'' in
           if \<not> (EqualFold ctype jctype \<or> HasPrefix ctype jctype)
           then Some (''Expected json, got ['' @ ctype @ ''] with code '' @ itoa (StatusCode r))
           else None))"

text \<open>
  \<open>(api *API) ReadBody(res)\<close>: the handle after the call, the bytes and the error. With a
  body cached on the handle nothing else is looked at; otherwise \<open>res.Body\<close> is read
  (a \<open>nil\<close> \<open>res\<close> panics at \<open>defer res.Body.Close()\<close>) and the bytes are stored on the
  handle whether or not the read failed. \<open>ioutil.ReadAll\<close> returns a non-nil slice.
\<close>

definition cachedBody :: "api \<Rightarrow> string option" where
  "cachedBody a = (case Response a of None \<Rightarrow> None | Some r \<Rightarrow> Body r)"

definition ReadBody ::
  "api \<Rightarrow> http_response option \<Rightarrow> fault + (api \<times> string option \<times> string option)" where
  "ReadBody a res =
     (case cachedBody a of
        Some b \<Rightarrow> Inr (a, Some b, None)
      | None \<Rightarrow>
          (case res of
             None \<Rightarrow> Inl Panic
           | Some hr \<Rightarrow>
               (let bodyBytes = Some (fst (BodyStream hr));
                    err = snd (BodyStream hr);
                    r = (case Response a of None \<Rightarrow> new_Response | Some r \<Rightarrow> r)
                in Inr (a\<lparr>Response := Some (r\<lparr>Body := bodyBytes\<rparr>)\<rparr>, bodyBytes, err))))"

section \<open>Query construction and the request pipeline: \<open>Samples\<close>\<close>

text \<open>
  A \<open>url.URL\<close>: the code reads and writes the field \<open>RawQuery\<close>; the other fields are
  the record's extension. \<open>url.Values\<close> is a \<open>map[string][]string\<close>.
\<close>

record url =
  RawQuery :: string

type_synonym url_values = "string \<rightharpoonup> string list"

definition Values_Set :: "url_values \<Rightarrow> string \<Rightarrow> string \<Rightarrow> url_values" where
  "Values_Set q k v = q(k \<mapsto> [v])"

record request =
  Method :: string
  Url :: string
  Authorization :: string

text \<open>
  What \<open>Samples\<close> uses from outside the modelled file: the package \<open>events\<close>,
  \<open>encoding/json\<close>, \<open>net/url\<close> and the HTTP client. \<open>clientDo\<close> is \<open>http.NewRequest\<close>
  followed by \<open>api.Client.Do\<close>: an error (also when the request cannot be built) or the
  response.
\<close>

record ('ev, 'z) deps =
  validEventType :: "string \<Rightarrow> bool"
  eventForName :: "'ev registry"
  unmarshalEvent :: "'ev decoder"
  unmarshalResMap :: "string \<Rightarrow> string + (string \<rightharpoonup> string option list)"
  urlParse :: "string \<Rightarrow> string + 'z url_scheme"
  parseQuery :: "string \<Rightarrow> url_values"
  valuesEncode :: "url_values \<Rightarrow> string"
  urlString :: "'z url_scheme \<Rightarrow> string"
  clientDo :: "request \<Rightarrow> string + http_response"

text \<open>What a call does besides returning: requests handed to the client, bodies read.\<close>

datatype effect = Do request | ReadAll

text \<open>\<open>fmt.Sprintf("%s%s/events/samples", m.Config.BaseUrl, m.Path)\<close>.\<close>

definition samplesPath :: "api \<Rightarrow> string" where
  "samplesPath m = BaseUrl (Config m) @ Path m @ ''/events/samples''"

text \<open>The loop \<open>for _, etype := range *types\<close>: the error for the first invalid kind.\<close>

fun validateTypes :: "(string \<Rightarrow> bool) \<Rightarrow> string list \<Rightarrow> string option" where
  "validateTypes valid [] = None"
| "validateTypes valid (etype # rest) =
     (if \<not> valid etype then Some (''Invalid event type ['' @ etype @ '']'')
      else validateTypes valid rest)"

text \<open>The first part of \<open>Samples\<close>: the URL to request, or the error returned instead.\<close>

definition samplesUrl :: "('ev, 'z) deps \<Rightarrow> api \<Rightarrow> string list option \<Rightarrow> string + string" where
  "samplesUrl d m types =
     (case types of
        None \<Rightarrow> Inr (samplesPath m)
      | Some ts \<Rightarrow>
          (case validateTypes (validEventType d) ts of
             Some err \<Rightarrow> Inl err
           | None \<Rightarrow>
               (case urlParse d (samplesPath m) of
                  Inl err \<Rightarrow> Inl err
                | Inr u \<Rightarrow>
                    (let q = parseQuery d (RawQuery u);
                         q' = Values_Set q ''events'' (Join ts '','');
                         u' = u\<lparr>RawQuery := valuesEncode d q'\<rparr>
                     in Inr (urlString d u')))))"

text \<open>\<open>(api *API) HttpGet(url)\<close>: the request handed to the client.\<close>

definition HttpGet_request :: "api \<Rightarrow> string \<Rightarrow> request" where
  "HttpGet_request a u = \<lparr>Method = ''GET'', Url = u, Authorization = ApiKey (Config a)\<rparr>"

text \<open>
  \<open>Samples\<close> has a value receiver: it works on a copy \<open>m\<close> of the caller's handle. The
  copy shares the \<open>Response\<close> object when the pointer is not \<open>nil\<close>, so a body stored by
  \<open>ReadBody\<close> reaches the caller's handle in that case only.
\<close>

definition callerHandle :: "api \<Rightarrow> api \<Rightarrow> api" where
  "callerHandle m m' = (if Response m = None then m else m')"

text \<open>
  \<open>(m MessageEvents) Samples(types)\<close>: the result, the effects in the order they happen,
  and the caller's handle afterwards.
\<close>

definition Samples ::
  "('ev, 'z) deps \<Rightarrow> api \<Rightarrow> string list option
     \<Rightarrow> (fault + 'ev option list) \<times> effect list \<times> api" where
  "Samples d m types =
     (case samplesUrl d m types of
        Inl err \<Rightarrow> (Inl (Error err), [], m)
      | Inr u \<Rightarrow>
          (let req = HttpGet_request m u in
           case clientDo d req of
             Inl err \<Rightarrow> (Inl (Error err), [Do req], m)
           | Inr res \<Rightarrow>
               (case AssertJson (Some res) of
                  Some err \<Rightarrow> (Inl (Error err), [Do req], m)
                | None \<Rightarrow>
                    (case ReadBody m (Some res) of
                       Inl f \<Rightarrow> (Inl f, [Do req], m)
                     | Inr (m', bodyBytes, rerr) \<Rightarrow>
                         (let effects = Do req # (if cachedBody m = None then [ReadAll] else []);
                              caller = callerHandle m m'
                          in case rerr of
                               Some err \<Rightarrow> (Inl (Error err), effects, caller)
                             | None \<Rightarrow>
                                 (case unmarshalResMap d (case bodyBytes of None \<Rightarrow> [] | Some b \<Rightarrow> b) of
                                    Inl err \<Rightarrow> (Inl (Error err), effects, caller)
                                  | Inr resMap \<Rightarrow>
                                      (case resMap ''results'' of
                                         None \<Rightarrow> (Inl (Error ''no results!''), effects, caller)
                                       | Some results \<Rightarrow>
                                           (ParseEvents (eventForName d) (unmarshalEvent d) results,
                                            effects, caller))))))))"

section \<open>Sample instances\<close>

text \<open>
  Concrete stand-ins for the parameters, used to evaluate the definitions on explicit
  inputs. The sample registry knows the kinds \<open>delivery\<close> and \<open>bounce\<close> only; the sample
  decoder rejects a record that is not a JSON object, as \<open>json.Unmarshal\<close> does for a
  struct, and otherwise stores the record's bytes in the instance.
\<close>

datatype sample_event = SampleEvent string string

definition sampleRegistry :: "sample_event registry" where
  "sampleRegistry k =
     (if k = ''delivery'' \<or> k = ''bounce'' then Some (SampleEvent k []) else None)"

definition sampleUnmarshal :: "sample_event decoder" where
  "sampleUnmarshal s e =
     (case s of
        [] \<Rightarrow> Inl ''unexpected end of JSON input''
      | c # cs \<Rightarrow>
          if c = CHR ''{'' then (case e of SampleEvent k p \<Rightarrow> Inr (SampleEvent k s))
          else Inl ''json: cannot unmarshal array into Go value'')"

definition jsonString :: "string \<Rightarrow> string" where
  "jsonString v = dquote # v @ [dquote]"

text \<open>The record \<open>{"type": "<kind>"}\<close>, and the same object inside an array.\<close>

definition sampleRecord :: "string \<Rightarrow> string" where
  "sampleRecord kind = ''{'' @ jsonString ''type'' @ '': '' @ jsonString kind @ ''}''"

definition sampleArrayRecord :: "string \<Rightarrow> string" where
  "sampleArrayRecord kind = ''['' @ sampleRecord kind @ '']''"

text \<open>The record \<open>{"msg":{"type":"bounce"},"type":"delivery"}\<close>.\<close>

definition sampleNestedRecord :: string where
  "sampleNestedRecord =
     ''{'' @ jsonString ''msg'' @ '':{'' @ jsonString ''type'' @ '':'' @ jsonString ''bounce'' @ ''},''
       @ jsonString ''type'' @ '':'' @ jsonString ''delivery'' @ ''}''"

definition sampleResponse :: "string \<Rightarrow> string \<Rightarrow> http_response" where
  "sampleResponse ctype body =
     \<lparr>StatusCode = 200, Header = [''Content-Type'' \<mapsto> [ctype]], BodyStream = (body, None)\<rparr>"

definition sampleApi :: api where
  "sampleApi =
     \<lparr>Path = ''/api/v1/message-events'',
      Config = \<lparr>BaseUrl = ''https://api.example.com'', ApiKey = ''key'', ApiVersion = 1\<rparr>,
      Response = None\<rparr>"

text \<open>
  A sample environment. Its client answers every request with the given response; its
  envelope decoder knows the bodies \<open>{}\<close> (no field) and \<open>{"results":[]}\<close>; its URLs keep
  the text before the query in the extension field, and its query encoder escapes the
  comma as \<open>url.Values.Encode\<close> does.
\<close>

definition sampleDeps :: "http_response \<Rightarrow> (sample_event, string) deps" where
  "sampleDeps res =
     \<lparr>validEventType = (\<lambda>k. sampleRegistry k \<noteq> None),
      eventForName = sampleRegistry,
      unmarshalEvent = sampleUnmarshal,
      unmarshalResMap = (\<lambda>b.
        if b = ''{}'' then Inr Map.empty
        else if b = ''{'' @ jsonString ''results'' @ '':[]}'' then Inr [''results'' \<mapsto> []]
        else Inl ''invalid character''),
      urlParse = (\<lambda>s. Inr \<lparr>RawQuery = [], \<dots> = s\<rparr>),
      parseQuery = (\<lambda>q. Map.empty),
      valuesEncode = (\<lambda>q.
        case q ''events'' of
          Some [v] \<Rightarrow> ''events='' @ concat (map (\<lambda>c. if c = CHR '','' then ''%2C'' else [c]) v)
        | _ \<Rightarrow> []),
      urlString = (\<lambda>u. url.more u @ (if RawQuery u = [] then [] else ''?'' @ RawQuery u)),
      clientDo = (\<lambda>req. Inr res)\<rparr>"

section \<open>The matcher agrees with the pattern\<close>

lemma stripPrefix_append: "stripPrefix p (p @ s) = Some s"
  by (induction p) auto

lemma stripPrefix_Some: "stripPrefix p s = Some r \<Longrightarrow> s = p @ r"
  by (induction p s rule: stripPrefix.induct) (auto split: if_splits)

lemma dquote_not_space: "\<not> isSpace dquote"
  by (simp add: isSpace_def dquote_def)

lemma dquote_not_word: "\<not> isWord dquote"
  by (simp add: isWord_def dquote_def)

lemma takeWhile_all: "list_all P xs \<Longrightarrow> \<not> P y \<Longrightarrow> takeWhile P (xs @ y # ys) = xs"
  by (induction xs) auto

lemma dropWhile_all: "list_all P xs \<Longrightarrow> \<not> P y \<Longrightarrow> dropWhile P (xs @ y # ys) = y # ys"
  by (induction xs) auto

lemma matchHere_complete:
  assumes "patternMatch m g"
  shows "matchHere (m @ post) = Some (m, g)"
proof -
  from assms obtain ws where m: "m = typeLit @ ws @ dquote # g @ [dquote]"
    and ws: "list_all isSpace ws" and g: "g \<noteq> []" "list_all isWord g"
    by (auto simp: patternMatch_def)
  have 2: "takeWhile isSpace (ws @ dquote # g @ dquote # post) = ws"
    "dropWhile isSpace (ws @ dquote # g @ dquote # post) = dquote # g @ dquote # post"
    using ws dquote_not_space by (simp_all add: takeWhile_all dropWhile_all)
  have 3: "takeWhile isWord (g @ dquote # post) = g"
    "dropWhile isWord (g @ dquote # post) = dquote # post"
    using g dquote_not_word by (simp_all add: takeWhile_all dropWhile_all)
  show ?thesis
    by (simp add: matchHere_def stripPrefix_append 2 3 g m)
qed

lemma matchHere_sound:
  assumes "matchHere s = Some (m, g)"
  shows "\<exists>post. s = m @ post \<and> patternMatch m g"
proof -
  from assms obtain r where r: "stripPrefix typeLit s = Some r"
    by (auto simp: matchHere_def split: option.splits)
  from assms r obtain r2 where r2: "dropWhile isSpace r = dquote # r2"
    by (auto simp: matchHere_def Let_def split: list.splits if_splits)
  from assms r r2 obtain r3 where r3: "dropWhile isWord r2 = dquote # r3"
    and g: "g = takeWhile isWord r2" "g \<noteq> []"
    and m: "m = typeLit @ takeWhile isSpace r @ dquote # g @ [dquote]"
    by (auto simp: matchHere_def Let_def split: list.splits if_splits)
  have "r = takeWhile isSpace r @ dquote # r2"
    using r2 takeWhile_dropWhile_id [of isSpace r] by simp
  moreover have "r2 = g @ dquote # r3"
    using r3 g takeWhile_dropWhile_id [of isWord r2] by simp
  ultimately have "s = m @ r3"
    using stripPrefix_Some [OF r] m by simp
  moreover have "patternMatch m g"
    unfolding patternMatch_def
    using m g by (intro exI [of _ "takeWhile isSpace r"]) (auto simp: list_all_iff dest: set_takeWhileD)
  ultimately show ?thesis by blast
qed

lemma findFirst_matchHere: "matchHere s = Some mg \<Longrightarrow> findFirst s = Some mg"
  by (cases s) auto

lemma findFirst_leftmost:
  "matchHere rest = Some mg \<Longrightarrow> \<forall>k<length pre. matchHere (drop k (pre @ rest)) = None \<Longrightarrow>
   findFirst (pre @ rest) = Some mg"
proof (induction pre)
  case Nil
  then show ?case by (simp add: findFirst_matchHere)
next
  case (Cons c pre)
  from Cons.prems(2) have "matchHere (drop 0 ((c # pre) @ rest)) = None" by blast
  then have here: "matchHere (c # pre @ rest) = None" by simp
  have "\<forall>k<length pre. matchHere (drop k (pre @ rest)) = None"
  proof (intro allI impI)
    fix k assume "k < length pre"
    then have "Suc k < length (c # pre)" by simp
    with Cons.prems(2) have "matchHere (drop (Suc k) ((c # pre) @ rest)) = None" by blast
    then show "matchHere (drop k (pre @ rest)) = None" by simp
  qed
  with Cons.IH Cons.prems(1) have "findFirst (pre @ rest) = Some mg" by blast
  with here show ?case by simp
qed

lemma findFirst_Some:
  "findFirst s = Some mg \<Longrightarrow>
   \<exists>pre rest. s = pre @ rest \<and> matchHere rest = Some mg
      \<and> (\<forall>k<length pre. matchHere (drop k s) = None)"
proof (induction s)
  case Nil
  then show ?case by simp
next
  case (Cons c cs)
  show ?case
  proof (cases "matchHere (c # cs)")
    case (Some a)
    with Cons.prems have "matchHere (c # cs) = Some mg" by simp
    then show ?thesis by (intro exI [of _ "[]"] exI [of _ "c # cs"]) simp
  next
    case None
    with Cons.prems have "findFirst cs = Some mg" by simp
    from Cons.IH [OF this] obtain pre rest where
      p: "cs = pre @ rest" "matchHere rest = Some mg"
         "\<forall>k<length pre. matchHere (drop k cs) = None" by blast
    have "\<forall>k<length (c # pre). matchHere (drop k (c # cs)) = None"
    proof (intro allI impI)
      fix k assume k: "k < length (c # pre)"
      show "matchHere (drop k (c # cs)) = None"
      proof (cases k)
        case 0
        with None show ?thesis by simp
      next
        case (Suc j)
        with k p(3) show ?thesis by simp
      qed
    qed
    with p(1,2) show ?thesis
      by (intro exI [of _ "c # pre"] exI [of _ rest]) simp
  qed
qed


lemma findFirst_Some_iff:
  "findFirst s = Some (m, g) \<longleftrightarrow>
     (\<exists>pre post. s = pre @ m @ post \<and> patternMatch m g
        \<and> (\<forall>pre' m' g' post'. s = pre' @ m' @ post' \<and> patternMatch m' g'
              \<longrightarrow> length pre \<le> length pre'))"
proof
  assume "findFirst s = Some (m, g)"
  from findFirst_Some [OF this] obtain pre rest where
    p: "s = pre @ rest" "matchHere rest = Some (m, g)"
       "\<forall>k<length pre. matchHere (drop k s) = None" by blast
  from matchHere_sound [OF p(2)] obtain post where
    q: "rest = m @ post" "patternMatch m g" by blast
  have "length pre \<le> length pre'" if "s = pre' @ m' @ post'" "patternMatch m' g'"
    for pre' m' g' post'
  proof (rule ccontr)
    assume "\<not> length pre \<le> length pre'"
    then have "matchHere (drop (length pre') s) = None" using p(3) by simp
    moreover have "drop (length pre') s = m' @ post'" using that(1) by simp
    ultimately show False using matchHere_complete [OF that(2), of post'] by simp
  qed
  with p(1) q show "\<exists>pre post. s = pre @ m @ post \<and> patternMatch m g
        \<and> (\<forall>pre' m' g' post'. s = pre' @ m' @ post' \<and> patternMatch m' g'
              \<longrightarrow> length pre \<le> length pre')"
    by blast
next
  assume "\<exists>pre post. s = pre @ m @ post \<and> patternMatch m g
        \<and> (\<forall>pre' m' g' post'. s = pre' @ m' @ post' \<and> patternMatch m' g'
              \<longrightarrow> length pre \<le> length pre')"
  then obtain pre post where
    p: "s = pre @ m @ post" "patternMatch m g"
       "\<And>pre' m' g' post'. s = pre' @ m' @ post' \<Longrightarrow> patternMatch m' g'
              \<Longrightarrow> length pre \<le> length pre'" by blast
  have "matchHere (drop k (pre @ m @ post)) = None" if k: "k < length pre" for k
  proof (rule ccontr)
    assume "matchHere (drop k (pre @ m @ post)) \<noteq> None"
    then obtain m' g' where "matchHere (drop k s) = Some (m', g')"
      using p(1) by auto
    from matchHere_sound [OF this] obtain post' where
      q: "drop k s = m' @ post'" "patternMatch m' g'" by blast
    have "s = take k s @ m' @ post'"
      using q(1) append_take_drop_id [of k s] by simp
    from p(3) [OF this q(2)] have "length pre \<le> length (take k s)" .
    with k show False by simp
  qed
  with findFirst_leftmost [OF matchHere_complete [OF p(2), of post], of pre] p(1)
  show "findFirst s = Some (m, g)" by simp
qed


section \<open>The loop of \<open>ParseEvents\<close>, record by record\<close>


lemma FindStringSubmatch_None: "kindOf s = None \<Longrightarrow> FindStringSubmatch s = []"
  by (simp add: kindOf_def FindStringSubmatch_def)

lemma FindStringSubmatch_Some:
  "kindOf s = Some k \<Longrightarrow> length (FindStringSubmatch s) = 2 \<and> FindStringSubmatch s ! 1 = k"
  by (auto simp: kindOf_def FindStringSubmatch_def split: option.splits)

lemma loop_Cons:
  "ParseEvents_loop reg unm (Some s # js) elist i =
     (case processRecord reg unm s of
        Faulted m \<Rightarrow> Inl (Error m)
      | Skipped \<Rightarrow> ParseEvents_loop reg unm js elist i
      | Decoded e \<Rightarrow>
          if i < length elist then ParseEvents_loop reg unm js (elist[i := Some e]) (i + 1)
          else Inl Panic)"
proof (cases "kindOf s")
  case None
  then show ?thesis
    by (simp add: processRecord_def FindStringSubmatch_None)
next
  case (Some k)
  then show ?thesis
    using FindStringSubmatch_Some [OF Some]
    by (simp add: processRecord_def Let_def split: option.splits sum.splits)
qed

declare ParseEvents_loop.simps(2) [simp del]

lemma loop_fault:
  "firstFault (map (processRecord reg unm) rs) = Some m \<Longrightarrow> i + length rs \<le> length elist \<Longrightarrow>
   ParseEvents_loop reg unm (map Some rs) elist i = Inl (Error m)"
proof (induction rs arbitrary: elist i)
  case Nil
  then show ?case by simp
next
  case (Cons s rs)
  show ?case
  proof (cases "processRecord reg unm s")
    case Skipped
    with Cons show ?thesis by (simp add: loop_Cons)
  next
    case (Decoded e)
    with Cons show ?thesis by (simp add: loop_Cons)
  next
    case (Faulted m')
    with Cons show ?thesis by (simp add: loop_Cons)
  qed
qed

lemma loop_ok:
  "firstFault (map (processRecord reg unm) rs) = None \<Longrightarrow> i + length rs \<le> length elist \<Longrightarrow>
   \<exists>elist'. ParseEvents_loop reg unm (map Some rs) elist i
        = Inr (elist', i + length (decodedOf (map (processRecord reg unm) rs)))
      \<and> length elist' = length elist
      \<and> take (i + length (decodedOf (map (processRecord reg unm) rs))) elist'
          = take i elist @ map Some (decodedOf (map (processRecord reg unm) rs))"
proof (induction rs arbitrary: elist i)
  case Nil
  then show ?case by simp
next
  case (Cons s rs)
  show ?case
  proof (cases "processRecord reg unm s")
    case Skipped
    with Cons.prems Cons.IH [of i elist] show ?thesis by (simp add: loop_Cons)
  next
    case (Decoded e)
    from Cons.prems have lt: "i < length elist" by simp
    from Cons.prems Decoded have
      "firstFault (map (processRecord reg unm) rs) = None"
      "Suc i + length rs \<le> length (elist[i := Some e])" by simp_all
    from Cons.IH [OF this] obtain elist' where
      "ParseEvents_loop reg unm (map Some rs) (elist[i := Some e]) (Suc i)
        = Inr (elist', Suc i + length (decodedOf (map (processRecord reg unm) rs)))"
      "length elist' = length elist"
      "take (Suc i + length (decodedOf (map (processRecord reg unm) rs))) elist'
          = take (Suc i) (elist[i := Some e]) @ map Some (decodedOf (map (processRecord reg unm) rs))"
      by auto
    with lt Decoded show ?thesis
      by (simp add: loop_Cons take_Suc_conv_app_nth)
  next
    case (Faulted m')
    with Cons show ?thesis by simp
  qed
qed

lemma ParseEvents_records:
  "ParseEvents reg unm (map Some rs) =
     (case firstFault (map (processRecord reg unm) rs) of
        Some m \<Rightarrow> Inl (Error m)
      | None \<Rightarrow> Inr (map Some (decodedOf (map (processRecord reg unm) rs))))"
proof (cases "firstFault (map (processRecord reg unm) rs)")
  case None
  from loop_ok [OF None, of 0 "replicate (length rs) None"]
  show ?thesis using None by (auto simp: ParseEvents_def)
next
  case (Some m)
  from loop_fault [OF Some, of 0 "replicate (length rs) None"]
  show ?thesis using Some by (simp add: ParseEvents_def)
qed



lemma no_fault_decoded:
  assumes "\<forall>s\<in>set rs. kindOf s \<noteq> None"
    and "\<forall>s\<in>set rs. registered reg s \<longrightarrow> decodedEvent reg unm s \<noteq> None"
  shows "firstFault (map (processRecord reg unm) rs) = None
    \<and> map Some (decodedOf (map (processRecord reg unm) rs))
        = map (decodedEvent reg unm) (filter (registered reg) rs)"
  using assms
proof (induction rs)
  case Nil
  then show ?case by simp
next
  case (Cons s rs)
  then have IH: "firstFault (map (processRecord reg unm) rs) = None"
    "map Some (decodedOf (map (processRecord reg unm) rs))
        = map (decodedEvent reg unm) (filter (registered reg) rs)" by simp_all
  from Cons.prems obtain k where k: "kindOf s = Some k" by auto
  show ?case
  proof (cases "reg k")
    case None
    with k have "processRecord reg unm s = Skipped" "\<not> registered reg s"
      by (simp_all add: processRecord_def registered_def)
    with IH show ?thesis by simp
  next
    case (Some e)
    with k have r: "registered reg s" by (simp add: registered_def)
    with Cons.prems obtain e' where e': "decodedEvent reg unm s = Some e'" by auto
    then have "processRecord reg unm s = Decoded e'"
      by (auto simp: decodedEvent_def split: outcome.splits)
    with r e' IH show ?thesis by simp
  qed
qed

section \<open>The sample records, evaluated\<close>

lemma kindOf_samples:
  "kindOf (sampleRecord ''delivery'') = Some ''delivery''"
  "kindOf (sampleRecord ''bounce'') = Some ''bounce''"
  "kindOf (sampleRecord ''new_kind'') = Some ''new_kind''"
  "kindOf (sampleRecord ''a-b'') = None"
  "kindOf (sampleArrayRecord ''delivery'') = Some ''delivery''"
  "kindOf sampleNestedRecord = Some ''bounce''"
  by (simp_all add: sampleRecord_def sampleArrayRecord_def sampleNestedRecord_def jsonString_def
      kindOf_def matchHere_def typeLit_def dquote_def isSpace_def isWord_def)

lemma sampleUnmarshal_samples:
  "sampleUnmarshal (sampleRecord k) (SampleEvent k' p) = Inr (SampleEvent k' (sampleRecord k))"
  "sampleUnmarshal sampleNestedRecord (SampleEvent k' p) = Inr (SampleEvent k' sampleNestedRecord)"
  "sampleUnmarshal (sampleArrayRecord k) e = Inl ''json: cannot unmarshal array into Go value''"
  by (simp_all add: sampleUnmarshal_def sampleRecord_def sampleNestedRecord_def
      sampleArrayRecord_def)

lemma processRecord_samples:
  "processRecord sampleRegistry sampleUnmarshal (sampleRecord ''delivery'')
     = Decoded (SampleEvent ''delivery'' (sampleRecord ''delivery''))"
  "processRecord sampleRegistry sampleUnmarshal (sampleRecord ''bounce'')
     = Decoded (SampleEvent ''bounce'' (sampleRecord ''bounce''))"
  "processRecord sampleRegistry sampleUnmarshal (sampleRecord ''new_kind'') = Skipped"
  "processRecord sampleRegistry sampleUnmarshal (sampleRecord ''a-b'')
     = Faulted (noTypeError (sampleRecord ''a-b''))"
  "processRecord sampleRegistry sampleUnmarshal (sampleArrayRecord ''delivery'')
     = Faulted ''error parsing [delivery]: json: cannot unmarshal array into Go value''"
  "processRecord sampleRegistry sampleUnmarshal sampleNestedRecord
     = Decoded (SampleEvent ''bounce'' sampleNestedRecord)"
  by (simp_all add: processRecord_def kindOf_samples sampleRegistry_def sampleUnmarshal_samples
      parseError_def)

lemma registered_samples:
  "registered sampleRegistry (sampleRecord ''delivery'')"
  "registered sampleRegistry (sampleRecord ''bounce'')"
  "\<not> registered sampleRegistry (sampleRecord ''new_kind'')"
  by (simp_all add: registered_def kindOf_samples sampleRegistry_def)

section \<open>Claims about \<open>ParseEvents\<close>\<close>

text \<open>
  C1 (as amended). For every list of records in which every record yields a kind-tag and
  every record of a registered kind decodes without error, \<open>ParseEvents\<close> returns exactly
  the decoded events of the records whose kind is registered, in their original order,
  with no \<open>nil\<close> slot among them; their number is \<open>N - K\<close> when \<open>K\<close> of the \<open>N\<close> records
  have unregistered kinds.
\<close>

theorem ParseEvents_registered_in_order:
  assumes "\<forall>s\<in>set rs. kindOf s \<noteq> None"
    and "\<forall>s\<in>set rs. registered reg s \<longrightarrow> decodedEvent reg unm s \<noteq> None"
  shows "ParseEvents reg unm (map Some rs)
           = Inr (map (decodedEvent reg unm) (filter (registered reg) rs))
    \<and> None \<notin> set (map (decodedEvent reg unm) (filter (registered reg) rs))
    \<and> length (map (decodedEvent reg unm) (filter (registered reg) rs))
        = length rs - length (filter (\<lambda>s. \<not> registered reg s) rs)"
proof -
  from no_fault_decoded [OF assms] have
    "ParseEvents reg unm (map Some rs)
       = Inr (map (decodedEvent reg unm) (filter (registered reg) rs))"
    by (simp add: ParseEvents_records)
  moreover have "None \<notin> set (map (decodedEvent reg unm) (filter (registered reg) rs))"
    using assms(2) by auto
  moreover have "length (filter (registered reg) rs)
      = length rs - length (filter (\<lambda>s. \<not> registered reg s) rs)"
    using sum_length_filter_compl [of "registered reg" rs] by simp
  ultimately show ?thesis by simp
qed

theorem ParseEvents_registered_in_order_witness:
  "ParseEvents sampleRegistry sampleUnmarshal
     (map Some [sampleRecord ''delivery'', sampleRecord ''new_kind'', sampleRecord ''bounce''])
   = Inr [Some (SampleEvent ''delivery'' (sampleRecord ''delivery'')),
          Some (SampleEvent ''bounce'' (sampleRecord ''bounce''))]"
  using ParseEvents_registered_in_order [of
      "[sampleRecord ''delivery'', sampleRecord ''new_kind'', sampleRecord ''bounce'']"
      sampleRegistry sampleUnmarshal]
  by (simp add: kindOf_samples registered_samples decodedEvent_def processRecord_samples)

text \<open>
  C1 as stated, for every list in which every record yields a kind-tag, fails on the list
  whose only record is the JSON array \<open>[{"type": "delivery"}]\<close>: the record yields the
  registered kind-tag \<open>delivery\<close>, the decoder rejects it, and \<open>ParseEvents\<close> returns an
  error instead of a list of events.
\<close>

theorem ParseEvents_decode_failure_counterexample:
  "kindOf (sampleArrayRecord ''delivery'') = Some ''delivery''
   \<and> sampleRegistry ''delivery'' = Some (SampleEvent ''delivery'' [])
   \<and> ParseEvents sampleRegistry sampleUnmarshal [Some (sampleArrayRecord ''delivery'')]
       = Inl (Error ''error parsing [delivery]: json: cannot unmarshal array into Go value'')"
  using ParseEvents_records [of sampleRegistry sampleUnmarshal "[sampleArrayRecord ''delivery'']"]
  by (simp add: kindOf_samples processRecord_samples sampleRegistry_def)





text \<open>
  C8. \<open>FindStringSubmatch\<close> returns the match \<open>m\<close> with capture group \<open>g\<close> exactly when \<open>m\<close>
  is an occurrence of the pattern in the record's bytes and no occurrence starts further
  left. In particular the record \<open>{"msg":{"type":"bounce"},"type":"delivery"}\<close> has the
  kind-tag \<open>bounce\<close> of the nested value, and is decoded as a \<open>bounce\<close> event.
\<close>
theorem FindStringSubmatch_first_occurrence:
  "(FindStringSubmatch s = [m, g] \<longleftrightarrow>
      (\<exists>pre post. s = pre @ m @ post \<and> patternMatch m g
         \<and> (\<forall>pre' m' g' post'. s = pre' @ m' @ post' \<and> patternMatch m' g'
               \<longrightarrow> length pre \<le> length pre')))
   \<and> FindStringSubmatch sampleNestedRecord ! 1 = ''bounce''
   \<and> ParseEvents sampleRegistry sampleUnmarshal [Some sampleNestedRecord]
       = Inr [Some (SampleEvent ''bounce'' sampleNestedRecord)]"
proof -
  have "FindStringSubmatch s = [m, g] \<longleftrightarrow> findFirst s = Some (m, g)"
    by (auto simp: FindStringSubmatch_def split: option.splits)
  moreover have "FindStringSubmatch sampleNestedRecord ! 1 = ''bounce''"
    using FindStringSubmatch_Some [OF kindOf_samples(6)] by simp
  moreover have "ParseEvents sampleRegistry sampleUnmarshal [Some sampleNestedRecord]
       = Inr [Some (SampleEvent ''bounce'' sampleNestedRecord)]"
    using ParseEvents_records [of sampleRegistry sampleUnmarshal "[sampleNestedRecord]"]
    by (simp add: processRecord_samples)
  ultimately show ?thesis
    by (simp only: findFirst_Some_iff simp_thms)
qed

theorem FindStringSubmatch_first_occurrence_witness:
  "FindStringSubmatch sampleNestedRecord = [typeLit @ jsonString ''bounce'', ''bounce'']
   \<and> (\<exists>pre post. sampleNestedRecord = pre @ (typeLit @ jsonString ''bounce'') @ post
         \<and> patternMatch (typeLit @ jsonString ''bounce'') ''bounce'')"
proof -
  have 1: "FindStringSubmatch sampleNestedRecord = [typeLit @ jsonString ''bounce'', ''bounce'']"
    by (simp add: FindStringSubmatch_def sampleNestedRecord_def jsonString_def
        matchHere_def typeLit_def dquote_def isSpace_def isWord_def)
  with FindStringSubmatch_first_occurrence [of sampleNestedRecord
      "typeLit @ jsonString ''bounce''" "''bounce''"]
  show ?thesis by blast
qed

section \<open>Content types and sample evaluations\<close>

lemma HasPrefix_iff: "HasPrefix s p \<longleftrightarrow> (\<exists>rest. s = p @ rest)"
  by (induction s p rule: HasPrefix.induct) auto

lemma EqualFold_ascii:
  "\<forall>c\<in>set s. (of_char c :: nat) < 128 \<Longrightarrow>
   EqualFold s t \<longleftrightarrow> map asciiLower s = map asciiLower t"
  by (induction s t rule: EqualFold.induct) auto

lemma asciiLower_jctype: "map asciiLower jctype = jctype"
  by (simp add: jctype_def asciiLower_def)

lemma digits_200: "digits 200 = ''200''"
  by code_simp

lemma sampleResponse_sel:
  "StatusCode (sampleResponse ctype body) = 200"
  "Header_Get (Header (sampleResponse ctype body)) ''Content-Type'' = ctype"
  "BodyStream (sampleResponse ctype body) = (body, None)"
  by (simp_all add: sampleResponse_def Header_Get_def)

lemma AssertJson_sample_html:
  "AssertJson (Some (sampleResponse ''text/html'' body))
     = Some ''Expected json, got [text/html] with code 200''"
  by (simp add: AssertJson_def sampleResponse_sel jctype_def asciiLower_def
      itoa_def digits_200)

lemma AssertJson_sample_json:
  "AssertJson (Some (sampleResponse ''application/json'' body)) = None"
  by (simp add: AssertJson_def sampleResponse_sel jctype_def asciiLower_def)

section \<open>Claims about \<open>Samples\<close>, \<open>AssertJson\<close> and \<open>ReadBody\<close>\<close>

lemma validateTypes_find:
  "validateTypes valid ts
     = map_option (\<lambda>k. ''Invalid event type ['' @ k @ '']'') (List.find (\<lambda>k. \<not> valid k) ts)"
  by (induction ts) auto

lemma find_None_list_all: "List.find (\<lambda>k. \<not> P k) ts = None \<longleftrightarrow> list_all P ts"
  by (induction ts) auto

lemma Samples_url_error:
  "samplesUrl d m types = Inl err \<Longrightarrow> Samples d m types = (Inl (Error err), [], m)"
  by (simp add: Samples_def)

lemma Samples_effects_url:
  "fst (snd (Samples d m types)) \<noteq> [] \<Longrightarrow> \<exists>u. samplesUrl d m types = Inr u"
  by (cases "samplesUrl d m types") (auto simp: Samples_def)

lemma Samples_first_effect:
  "samplesUrl d m types = Inr u \<Longrightarrow>
   \<exists>rest. fst (snd (Samples d m types)) = Do (HttpGet_request m u) # rest"
  by (auto simp: Samples_def Let_def split: sum.splits option.splits prod.splits)

text \<open>
  C3. For a call of \<open>Samples\<close> with a non-nil filter set: if \<open>k\<close> is the first requested kind
  that \<open>events.ValidEventType\<close> rejects, the call returns the error
  \<open>Invalid event type [k]\<close>, hands no request to the client and leaves the handle as it
  was; and whenever the call has any effect at all, every requested kind is valid.
\<close>
theorem Samples_invalid_type_no_request:
  "(List.find (\<lambda>k. \<not> validEventType d k) ts = Some k
      \<longrightarrow> Samples d m (Some ts) = (Inl (Error (''Invalid event type ['' @ k @ '']'')), [], m))
   \<and> (fst (snd (Samples d m (Some ts))) \<noteq> [] \<longrightarrow> list_all (validEventType d) ts)"
proof (intro conjI impI)
  assume "List.find (\<lambda>k. \<not> validEventType d k) ts = Some k"
  then have "samplesUrl d m (Some ts) = Inl (''Invalid event type ['' @ k @ '']'')"
    by (simp add: samplesUrl_def validateTypes_find)
  then show "Samples d m (Some ts) = (Inl (Error (''Invalid event type ['' @ k @ '']'')), [], m)"
    by (rule Samples_url_error)
next
  assume "fst (snd (Samples d m (Some ts))) \<noteq> []"
  from Samples_effects_url [OF this] obtain u where "samplesUrl d m (Some ts) = Inr u" ..
  then have "List.find (\<lambda>k. \<not> validEventType d k) ts = None"
    by (auto simp: samplesUrl_def validateTypes_find split: option.splits)
  then show "list_all (validEventType d) ts"
    by (simp add: find_None_list_all)
qed

theorem Samples_invalid_type_no_request_witness:
  "Samples (sampleDeps (sampleResponse ''application/json'' ''{}'')) sampleApi
     (Some [''delivery'', ''bogus_kind''])
   = (Inl (Error ''Invalid event type [bogus_kind]''), [], sampleApi)
   \<and> fst (snd (Samples (sampleDeps (sampleResponse ''application/json'' ''{}'')) sampleApi
         (Some [''delivery'', ''bounce'']))) \<noteq> []
   \<and> list_all (validEventType (sampleDeps (sampleResponse ''application/json'' ''{}'')))
         [''delivery'', ''bounce'']"
proof -
  let ?d = "sampleDeps (sampleResponse ''application/json'' ''{}'')"
  have 1: "List.find (\<lambda>k. \<not> validEventType ?d k) [''delivery'', ''bogus_kind'']
      = Some ''bogus_kind''"
    by (simp add: sampleDeps_def sampleRegistry_def)
  have 2: "fst (snd (Samples ?d sampleApi (Some [''delivery'', ''bounce'']))) \<noteq> []"
    by (simp add: Samples_def samplesUrl_def sampleDeps_def sampleRegistry_def Values_Set_def
        samplesPath_def HttpGet_request_def AssertJson_sample_json ReadBody_def cachedBody_def
        sampleApi_def sampleResponse_sel Let_def)
  from Samples_invalid_type_no_request [of ?d "[''delivery'', ''bogus_kind'']" "''bogus_kind''"
      sampleApi] 1
  have "Samples ?d sampleApi (Some [''delivery'', ''bogus_kind''])
      = (Inl (Error (''Invalid event type ['' @ ''bogus_kind'' @ '']'')), [], sampleApi)"
    by blast
  then have 3: "Samples ?d sampleApi (Some [''delivery'', ''bogus_kind''])
      = (Inl (Error ''Invalid event type [bogus_kind]''), [], sampleApi)"
    by simp
  from Samples_invalid_type_no_request [of ?d "[''delivery'', ''bounce'']" "''bogus_kind''"
      sampleApi] 2
  have "list_all (validEventType ?d) [''delivery'', ''bounce'']"
    by blast
  with 2 3 show ?thesis by blast
qed

text \<open>
  C7. For a call of \<open>Samples\<close> with a non-nil filter set whose kinds are all valid: the
  base samples path \<open>BaseUrl + Path + "/events/samples"\<close> is parsed; if that fails the
  error is returned and no request is made; otherwise the first effect is a \<open>GET\<close> request
  whose URL is the parsed URL with its query re-encoded after the parameter \<open>events\<close> has
  been set to the single value \<open>strings.Join(types, ",")\<close>.
\<close>
theorem Samples_events_query:
  assumes "list_all (validEventType d) ts"
  shows "case urlParse d (samplesPath m) of
           Inl err \<Rightarrow> Samples d m (Some ts) = (Inl (Error err), [], m)
         | Inr u \<Rightarrow>
             \<exists>rest. fst (snd (Samples d m (Some ts)))
                = Do \<lparr>Method = ''GET'',
                      Url = urlString d
                        (u\<lparr>RawQuery := valuesEncode d
                             ((parseQuery d (RawQuery u))(''events'' \<mapsto> [Join ts '','']))\<rparr>),
                      Authorization = ApiKey (Config m)\<rparr> # rest"
proof (cases "urlParse d (samplesPath m)")
  case (Inl err)
  from assms have "validateTypes (validEventType d) ts = None"
    by (simp add: validateTypes_find find_None_list_all)
  with Inl have "samplesUrl d m (Some ts) = Inl err"
    by (simp add: samplesUrl_def)
  from Samples_url_error [OF this] Inl show ?thesis by simp
next
  case (Inr u)
  from assms have "validateTypes (validEventType d) ts = None"
    by (simp add: validateTypes_find find_None_list_all)
  with Inr have "samplesUrl d m (Some ts)
      = Inr (urlString d
              (u\<lparr>RawQuery := valuesEncode d
                   ((parseQuery d (RawQuery u))(''events'' \<mapsto> [Join ts '','']))\<rparr>))"
    by (simp add: samplesUrl_def Values_Set_def)
  from Samples_first_effect [OF this] Inr show ?thesis
    by (simp add: HttpGet_request_def)
qed

theorem Samples_events_query_witness:
  "fst (snd (Samples (sampleDeps (sampleResponse ''application/json'' ''{}'')) sampleApi
     (Some [''delivery'', ''bounce''])))
   = [Do \<lparr>Method = ''GET'',
          Url = ''https://api.example.com/api/v1/message-events/events/samples?events=delivery%2Cbounce'',
          Authorization = ''key''\<rparr>,
      ReadAll]"
proof -
  have 1: "list_all (validEventType (sampleDeps (sampleResponse ''application/json'' ''{}'')))
      [''delivery'', ''bounce'']"
    by (simp add: sampleDeps_def sampleRegistry_def)
  from Samples_events_query [OF 1, of sampleApi] show ?thesis
    by (simp add: Samples_def samplesUrl_def sampleDeps_def sampleRegistry_def Values_Set_def
        samplesPath_def HttpGet_request_def AssertJson_sample_json ReadBody_def cachedBody_def
        sampleApi_def sampleResponse_sel Let_def)
qed



text \<open>
  C6. \<open>AssertJson\<close> returns no error exactly when the \<open>Content-Type\<close> of the response is
  equal to \<open>application/json\<close> under case folding or starts with \<open>application/json\<close>;
  otherwise its error quotes the content type and the status code. For an ASCII content
  type, equality under case folding is equality after lowering the ASCII letters. In
  \<open>Samples\<close>, a response that fails the check ends the call with that error: the only
  effect is the request, no body is read and the handle is unchanged.
\<close>
theorem AssertJson_content_type:
  "(AssertJson (Some r) = None \<longleftrightarrow>
      EqualFold (Header_Get (Header r) ''Content-Type'') jctype
      \<or> (\<exists>rest. Header_Get (Header r) ''Content-Type'' = jctype @ rest))
   \<and> (AssertJson (Some r) \<noteq> None \<longrightarrow>
        AssertJson (Some r)
          = Some (''Expected json, got ['' @ Header_Get (Header r) ''Content-Type''
                    @ ''] with code '' @ itoa (StatusCode r)))
   \<and> ((\<forall>c\<in>set ctype. (of_char c :: nat) < 128) \<longrightarrow>
        (EqualFold ctype jctype \<longleftrightarrow> map asciiLower ctype = jctype))
   \<and> (samplesUrl d m types = Inr u \<and> clientDo d (HttpGet_request m u) = Inr res
        \<and> AssertJson (Some res) = Some err
      \<longrightarrow> Samples d m types = (Inl (Error err), [Do (HttpGet_request m u)], m))"
proof (intro conjI impI)
  show "AssertJson (Some r) = None \<longleftrightarrow>
      EqualFold (Header_Get (Header r) ''Content-Type'') jctype
      \<or> (\<exists>rest. Header_Get (Header r) ''Content-Type'' = jctype @ rest)"
    by (simp add: AssertJson_def Let_def HasPrefix_iff)
next
  assume "AssertJson (Some r) \<noteq> None"
  then show "AssertJson (Some r)
          = Some (''Expected json, got ['' @ Header_Get (Header r) ''Content-Type''
                    @ ''] with code '' @ itoa (StatusCode r))"
    by (simp add: AssertJson_def Let_def split: if_splits)
next
  assume "\<forall>c\<in>set ctype. (of_char c :: nat) < 128"
  then show "EqualFold ctype jctype \<longleftrightarrow> map asciiLower ctype = jctype"
    by (simp add: EqualFold_ascii asciiLower_jctype)
next
  assume "samplesUrl d m types = Inr u \<and> clientDo d (HttpGet_request m u) = Inr res
        \<and> AssertJson (Some res) = Some err"
  then show "Samples d m types = (Inl (Error err), [Do (HttpGet_request m u)], m)"
    by (simp add: Samples_def Let_def)
qed

theorem AssertJson_content_type_witness:
  "AssertJson (Some (sampleResponse ''text/html'' ''<html>''))
     = Some ''Expected json, got [text/html] with code 200''
   \<and> Samples (sampleDeps (sampleResponse ''text/html'' ''<html>'')) sampleApi None
     = (Inl (Error ''Expected json, got [text/html] with code 200''),
        [Do (HttpGet_request sampleApi (samplesPath sampleApi))], sampleApi)
   \<and> EqualFold ''Application/JSON'' jctype"
proof -
  let ?res = "sampleResponse ''text/html'' ''<html>''"
  have 1: "samplesUrl (sampleDeps ?res) sampleApi None = Inr (samplesPath sampleApi)"
    by (simp add: samplesUrl_def)
  have 2: "clientDo (sampleDeps ?res) (HttpGet_request sampleApi (samplesPath sampleApi)) = Inr ?res"
    by (simp add: sampleDeps_def)
  have 3: "map asciiLower ''Application/JSON'' = jctype"
    by code_simp
  from AssertJson_content_type [of ?res "''Application/JSON''" "sampleDeps ?res" sampleApi None
      "samplesPath sampleApi" ?res "''Expected json, got [text/html] with code 200''"]
    1 2 3 AssertJson_sample_html [of "''<html>''"]
  show ?thesis by simp
qed

text \<open>
  C9. With a body \<open>b\<close> cached on the handle, \<open>ReadBody\<close> returns \<open>b\<close> and a \<open>nil\<close> error for every
  argument, also \<open>nil\<close>, and leaves the handle as it is. Hence after a first call on a
  handle without cached body, which returns the bytes and the read error of its
  response, a second call with any response returns the first call's bytes and no error.
\<close>

theorem ReadBody_cached:
  "(cachedBody a = Some b \<longrightarrow> ReadBody a res = Inr (a, Some b, None))
   \<and> (cachedBody a = None \<and> ReadBody a (Some r1) = Inr (a1, bytes1, err1)
        \<longrightarrow> bytes1 = Some (fst (BodyStream r1)) \<and> err1 = snd (BodyStream r1)
          \<and> ReadBody a1 res2 = Inr (a1, bytes1, None))"
proof -
  have cached: "ReadBody a res = Inr (a, Some b, None)" if "cachedBody a = Some b"
    using that by (simp add: ReadBody_def)
  have second: "bytes1 = Some (fst (BodyStream r1)) \<and> err1 = snd (BodyStream r1)
      \<and> ReadBody a1 res2 = Inr (a1, bytes1, None)"
    if "cachedBody a = None" and "ReadBody a (Some r1) = Inr (a1, bytes1, err1)"
  proof -
    from that have a1: "a1 = a\<lparr>Response :=
        Some ((case Response a of None \<Rightarrow> new_Response | Some r \<Rightarrow> r)
                \<lparr>Body := Some (fst (BodyStream r1))\<rparr>)\<rparr>"
      and res: "bytes1 = Some (fst (BodyStream r1))" "err1 = snd (BodyStream r1)"
      by (auto simp: ReadBody_def Let_def)
    from a1 have "cachedBody a1 = Some (fst (BodyStream r1))"
      by (simp add: cachedBody_def)
    then have "ReadBody a1 res2 = Inr (a1, Some (fst (BodyStream r1)), None)"
      by (simp add: ReadBody_def)
    with res show ?thesis by simp
  qed
  from cached second show ?thesis by blast
qed

theorem ReadBody_cached_witness:
  "ReadBody
     (sampleApi\<lparr>Response := Some (new_Response\<lparr>Body := Some ''first''\<rparr>)\<rparr>)
     (Some (sampleResponse ''application/json'' ''second''))
   = Inr (sampleApi\<lparr>Response := Some (new_Response\<lparr>Body := Some ''first''\<rparr>)\<rparr>,
          Some ''first'', None)
   \<and> ReadBody sampleApi
       (Some ((sampleResponse ''application/json'' ''first'')
                \<lparr>BodyStream := (''fir'', Some ''unexpected EOF'')\<rparr>))
     = Inr (sampleApi\<lparr>Response := Some (new_Response\<lparr>Body := Some ''fir''\<rparr>)\<rparr>,
            Some ''fir'', Some ''unexpected EOF'')
   \<and> ReadBody (sampleApi\<lparr>Response := Some (new_Response\<lparr>Body := Some ''fir''\<rparr>)\<rparr>) None
     = Inr (sampleApi\<lparr>Response := Some (new_Response\<lparr>Body := Some ''fir''\<rparr>)\<rparr>,
            Some ''fir'', None)"
proof -
  let ?a = "sampleApi\<lparr>Response := Some (new_Response\<lparr>Body := Some ''first''\<rparr>)\<rparr>"
  let ?r1 = "(sampleResponse ''application/json'' ''first'')
                \<lparr>BodyStream := (''fir'', Some ''unexpected EOF'')\<rparr>"
  let ?a1 = "sampleApi\<lparr>Response := Some (new_Response\<lparr>Body := Some ''fir''\<rparr>)\<rparr>"
  have 1: "cachedBody ?a = Some ''first''"
    by (simp add: cachedBody_def)
  have 2: "cachedBody sampleApi = None"
    by (simp add: cachedBody_def sampleApi_def)
  have 3: "ReadBody sampleApi (Some ?r1) = Inr (?a1, Some ''fir'', Some ''unexpected EOF'')"
    by (simp add: ReadBody_def cachedBody_def sampleApi_def Let_def)
  from ReadBody_cached [of ?a "''first''" "Some (sampleResponse ''application/json'' ''second'')"] 1
    ReadBody_cached [of sampleApi "''first''" None ?r1 ?a1 "Some ''fir''" "Some ''unexpected EOF''"
      None] 2 3
  show ?thesis by simp
qed

text \<open>
  C10. \<open>AssertJson\<close> applied to a \<open>nil\<close> response returns the error
  \<open>AssertJson got nil http.Response\<close>; the header and the status code are not consulted.
\<close>
theorem AssertJson_nil:
  "AssertJson None = Some ''AssertJson got nil http.Response''"
  by (simp add: AssertJson_def)

end
